theory Spec2Isabelle
  imports Main "HOL-Library.AList"
begin

section \<open>The JavaScript values the program computes with\<close>

text \<open>
  The program is TypeScript running on Node. Three parts of the language's
  semantics decide what the source does and are written out here: numbers
  (only \<open>NaN\<close> and integers occur; integers are idealised as unbounded, so
  the rounding of IEEE doubles beyond \<open>2^53\<close> is not modelled), reading an
  array out of range (the result is \<open>undefined\<close>, here \<open>None\<close>), and plain
  objects used as dictionaries (own properties in the order of
  \<open>OrdinaryOwnPropertyKeys\<close>, and the properties inherited from
  \<open>Object.prototype\<close>). Strings are byte strings.
\<close>

datatype error = TypeError

datatype jsnumber = NaN | Num int

fun jsAdd :: "jsnumber \<Rightarrow> jsnumber \<Rightarrow> jsnumber" where
  "jsAdd (Num a) (Num b) = Num (a + b)"
| "jsAdd _ _ = NaN"

fun jsSub :: "jsnumber \<Rightarrow> jsnumber \<Rightarrow> jsnumber" where
  "jsSub (Num a) (Num b) = Num (a - b)"
| "jsSub _ _ = NaN"

text \<open>\<open>ToString\<close> of a value that is a string or \<open>undefined\<close>; it is also
  the property key such a value denotes in \<open>obj[v]\<close>.\<close>

definition ToString :: "string option \<Rightarrow> string" where
  "ToString v = (case v of None \<Rightarrow> ''undefined'' | Some s \<Rightarrow> s)"

text \<open>\<open>arr[i]\<close> on an array of strings.\<close>

definition field :: "string list \<Rightarrow> nat \<Rightarrow> string option" where
  "field row i = (if i < length row then Some (row ! i) else None)"

subsection \<open>parseInt\<close>

definition isWhiteSpace :: "char \<Rightarrow> bool" where
  "isWhiteSpace c = ((of_char c :: nat) \<in> set [9, 10, 11, 12, 13, 32])"

definition digitValue :: "char \<Rightarrow> nat option" where
  "digitValue c =
     (let n = (of_char c :: nat) in
      if 48 \<le> n \<and> n \<le> 57 then Some (n - 48)
      else if 97 \<le> n \<and> n \<le> 122 then Some (n - 87)
      else if 65 \<le> n \<and> n \<le> 90 then Some (n - 55)
      else None)"

fun radixDigits :: "nat \<Rightarrow> string \<Rightarrow> nat list" where
  "radixDigits R [] = []"
| "radixDigits R (c # cs) =
     (case digitValue c of
        None \<Rightarrow> []
      | Some d \<Rightarrow> if d < R then d # radixDigits R cs else [])"

text \<open>\<open>parseInt(v)\<close> with no radix argument: the argument is converted to
  a string, leading white space (here: the ASCII white space) is dropped, then
  an optional sign, then an optional \<open>0x\<close>/\<open>0X\<close> prefix that selects radix
  16, then the longest run of digits of the radix is read; no digit at all
  gives \<open>NaN\<close>.\<close>

definition parseInt :: "string option \<Rightarrow> jsnumber" where
  "parseInt v =
     (let S = dropWhile isWhiteSpace (ToString v);
          sign = (if S \<noteq> [] \<and> hd S = CHR ''-'' then - 1 else (1 :: int));
          S1 = (if S \<noteq> [] \<and> (hd S = CHR ''+'' \<or> hd S = CHR ''-'') then tl S else S);
          hex = (take 2 S1 = ''0x'' \<or> take 2 S1 = ''0X'');
          R = (if hex then 16 else 10);
          S2 = (if hex then drop 2 S1 else S1);
          Z = radixDigits R S2
      in if Z = [] then NaN
         else Num (sign * int (foldl (\<lambda>a d. a * R + d) 0 Z)))"

subsection \<open>Plain objects as dictionaries\<close>

text \<open>An object is the list of its own properties in creation order.
  Enumeration (\<open>for ... in\<close>, \<open>Object.entries\<close>) lists the keys that are
  array indices first, in ascending numeric order, then the other keys in
  creation order.\<close>

definition isDecimalDigit :: "char \<Rightarrow> bool" where
  "isDecimalDigit c = (48 \<le> (of_char c :: nat) \<and> (of_char c :: nat) \<le> 57)"

definition decimalValue :: "string \<Rightarrow> int" where
  "decimalValue s = foldl (\<lambda>a c. a * 10 + ((of_char c :: int) - 48)) 0 s"

definition arrayIndex :: "string \<Rightarrow> int option" where
  "arrayIndex s =
     (if s \<noteq> [] \<and> list_all isDecimalDigit s \<and> (s = ''0'' \<or> hd s \<noteq> CHR ''0'')
         \<and> decimalValue s < 4294967295
      then Some (decimalValue s) else None)"

definition entries :: "(string \<times> 'v) list \<Rightarrow> (string \<times> 'v) list" where
  "entries obj =
     sort_key (\<lambda>p. the (arrayIndex (fst p))) (filter (\<lambda>p. arrayIndex (fst p) \<noteq> None) obj)
     @ filter (\<lambda>p. arrayIndex (fst p) = None) obj"

text \<open>The property names every plain object inherits from
  \<open>Object.prototype\<close>: reading one of them on an object that has no own
  property of that name gives a value that is not \<open>undefined\<close>.\<close>

definition objectPrototypeKeys :: "string list" where
  "objectPrototypeKeys =
     [''constructor'', ''hasOwnProperty'', ''isPrototypeOf'', ''propertyIsEnumerable'',
      ''toLocaleString'', ''toString'', ''valueOf'', ''__proto__'',
      ''__defineGetter__'', ''__defineSetter__'', ''__lookupGetter__'', ''__lookupSetter__'']"

text \<open>\<open>obj[k] = n\<close> for a number \<open>n\<close>: an own property is overwritten in
  place, a new one is created last; the key \<open>__proto__\<close> is the inherited
  setter, which ignores a value that is not an object.\<close>

definition setNumber :: "(string \<times> jsnumber) list \<Rightarrow> string \<Rightarrow> jsnumber \<Rightarrow> (string \<times> jsnumber) list" where
  "setNumber obj k n = (if k = ''__proto__'' then obj else AList.update k n obj)"

subsection \<open>Array.prototype.sort\<close>

text \<open>The comparator's result \<open>v\<close> is read as \<open>+0\<close> when it is \<open>NaN\<close>. The
  sort is stable; it is modelled as an insertion sort. (When the comparator is
  consistent every stable sort gives this result; the language leaves the order
  open otherwise, which here needs a \<open>NaN\<close> total among three or more
  speakers.)\<close>

definition sortCompare :: "jsnumber \<Rightarrow> int" where
  "sortCompare v = (case v of NaN \<Rightarrow> 0 | Num n \<Rightarrow> n)"

fun insertSorted :: "('a \<Rightarrow> 'a \<Rightarrow> jsnumber) \<Rightarrow> 'a \<Rightarrow> 'a list \<Rightarrow> 'a list" where
  "insertSorted cmp x [] = [x]"
| "insertSorted cmp x (y # ys) =
     (if sortCompare (cmp x y) \<le> 0 then x # y # ys else y # insertSorted cmp x ys)"

definition jsSort :: "('a \<Rightarrow> 'a \<Rightarrow> jsnumber) \<Rightarrow> 'a list \<Rightarrow> 'a list" where
  "jsSort cmp xs = foldr (insertSorted cmp) xs []"

section \<open>The data model (ts/interfaces.ts)\<close>

record ISpeach =
  topic :: "string option"
  date :: "string option"
  words :: "string option"

record SpeakerEntry =
  name :: "string option"
  speaches :: "ISpeach list"

type_synonym ISpeaker = "(string \<times> SpeakerEntry) list"

text \<open>The type \<open>filteredSpeakerType\<close> of \<open>ts/types\<close> is not part of the
  sources at hand; as the rankings use it, it is an object that maps speaker
  names to numbers.\<close>

type_synonym filteredSpeakerType = "(string \<times> jsnumber) list"

datatype filterOption = filterByYear | filterByTopic

datatype filterValue = NumberValue jsnumber | StringValue string

record IFilterOptions =
  option :: filterOption
  "value" :: filterValue

text \<open>The enum \<open>ColumnDefinitions\<close> of \<open>ts/enums\<close> is not part of the
  sources at hand; the four column positions are a parameter of every function
  that reads a row.\<close>

record ColumnDefinitions =
  Speaker :: nat
  Topic :: nat
  Date :: nat
  Words :: nat

text \<open>Modelled from the spec: the enum \<open>ColumnDefinitions\<close> of the missing
  \<open>ts/enums\<close>, as the layout the end-to-end example uses (four zero-based
  positions in the order Speaker, Topic, Date, Words).\<close>

definition columns :: ColumnDefinitions where
  "columns = \<lparr>Speaker = 0, Topic = 1, Date = 2, Words = 3\<rparr>"

record EvaluationResult =
  mostSpeaches :: "string option"
  mostSecurity :: "string option"
  leastWordy :: "string option"

section \<open>The rankings\<close>

text \<open>\<open>getLeastWordySpeaker\<close>: the loop over the speakers fills
  \<open>speakersByWords\<close>; the result is the key of the first entry after the
  sort, \<open>None\<close> standing for \<open>null\<close> (and for the \<open>undefined\<close> of
  \<open>shift()?.[0]\<close> on an empty array, which the test before it excludes).\<close>

definition totalWords :: "ISpeach list \<Rightarrow> jsnumber" where
  "totalWords ss = foldl (\<lambda>previousValue currentValue. jsAdd previousValue (parseInt (words currentValue))) (Num 0) ss"

definition speakersByWords :: "ISpeaker \<Rightarrow> filteredSpeakerType" where
  "speakersByWords speakers =
     foldl (\<lambda>acc p. setNumber acc (ToString (name (snd p))) (totalWords (speaches (snd p))))
       [] (entries speakers)"

definition firstKey :: "(string \<times> jsnumber) list \<Rightarrow> string option" where
  "firstKey xs = (case xs of [] \<Rightarrow> None | p # _ \<Rightarrow> Some (fst p))"

definition getLeastWordySpeaker :: "ISpeaker \<Rightarrow> string option" where
  "getLeastWordySpeaker speakers =
     (let byWords = speakersByWords speakers in
      if length (entries byWords) = 0 then None
      else firstKey (jsSort (\<lambda>a b. jsSub (snd a) (snd b)) (entries byWords)))"

text \<open>\<open>filterForSpeakers\<close>. The year of a date text is
  \<open>new Date(text).getFullYear()\<close>, which belongs to the runtime and reads
  the local time zone: it is the parameter \<open>getFullYear\<close>. \<open>===\<close> compares
  without conversion, so a number never equals a string and \<open>NaN\<close> equals
  nothing.\<close>

definition strictEqNumber :: "jsnumber \<Rightarrow> filterValue \<Rightarrow> bool" where
  "strictEqNumber y v = (case (y, v) of (Num a, NumberValue (Num b)) \<Rightarrow> a = b | _ \<Rightarrow> False)"

definition strictEqString :: "string option \<Rightarrow> filterValue \<Rightarrow> bool" where
  "strictEqString t v = (case (t, v) of (Some a, StringValue b) \<Rightarrow> a = b | _ \<Rightarrow> False)"

definition filteredSpeaches :: "(string option \<Rightarrow> jsnumber) \<Rightarrow> IFilterOptions \<Rightarrow> ISpeach list \<Rightarrow> ISpeach list" where
  "filteredSpeaches getFullYear filterOptions ss =
     (case option filterOptions of
        filterByYear \<Rightarrow> filter (\<lambda>speach. strictEqNumber (getFullYear (date speach)) (value filterOptions)) ss
      | filterByTopic \<Rightarrow> filter (\<lambda>speach. strictEqString (topic speach) (value filterOptions)) ss)"

definition filterForSpeakers :: "(string option \<Rightarrow> jsnumber) \<Rightarrow> ISpeaker \<Rightarrow> IFilterOptions \<Rightarrow> filteredSpeakerType" where
  "filterForSpeakers getFullYear speakers filterOptions =
     foldl (\<lambda>acc p.
              let n = length (filteredSpeaches getFullYear filterOptions (speaches (snd p))) in
              if n > 0 then setNumber acc (ToString (name (snd p))) (Num (int n)) else acc)
       [] (entries speakers)"

definition getFilteredSpeaker :: "(string option \<Rightarrow> jsnumber) \<Rightarrow> ISpeaker \<Rightarrow> IFilterOptions \<Rightarrow> string option" where
  "getFilteredSpeaker getFullYear speakers filterOptions =
     (let filteredSpeakers = filterForSpeakers getFullYear speakers filterOptions in
      if length (entries filteredSpeakers) = 0 then None
      else firstKey (jsSort (\<lambda>a b. jsSub (snd b) (snd a)) (entries filteredSpeakers)))"

section \<open>Header validation and grouping\<close>

text \<open>\<open>validateCsvHeader\<close> receives \<open>csvFilesData[csvFile][0]\<close>, which is
  \<open>undefined\<close> (\<open>None\<close>) for a table with no rows; reading a property of
  \<open>undefined\<close> throws.\<close>

definition validateCsvHeader :: "ColumnDefinitions \<Rightarrow> string list option \<Rightarrow> error + bool" where
  "validateCsvHeader cd header =
     (case header of
        None \<Rightarrow> Inl TypeError
      | Some h \<Rightarrow> Inr (field h (Speaker cd) = Some ''Speaker'' \<and>
                       field h (Topic cd) = Some ''Topic'' \<and>
                       field h (Date cd) = Some ''Date'' \<and>
                       field h (Words cd) = Some ''Words''))"

definition firstRow :: "string list list \<Rightarrow> string list option" where
  "firstRow t = (case t of [] \<Rightarrow> None | r # _ \<Rightarrow> Some r)"

text \<open>The body of the inner loop of \<open>sortAndGroupData\<close>, for one row.
  \<open>speakers[speaker]\<close> is an own entry, or a value inherited from
  \<open>Object.prototype\<close> (then it is not \<open>undefined\<close>, has no \<open>speaches\<close>, and
  spreading \<open>undefined\<close> throws), or \<open>undefined\<close>.\<close>

definition addRow :: "ColumnDefinitions \<Rightarrow> ISpeaker \<Rightarrow> string list \<Rightarrow> error + ISpeaker" where
  "addRow cd speakers rowData =
     (let speaker = field rowData (Speaker cd);
          speach = \<lparr>topic = field rowData (Topic cd),
                    date = field rowData (Date cd),
                    words = field rowData (Words cd)\<rparr>
      in case map_of speakers (ToString speaker) of
           Some e \<Rightarrow> Inr (AList.update (ToString speaker) (e\<lparr>speaches := speaches e @ [speach]\<rparr>) speakers)
         | None \<Rightarrow>
             if ToString speaker \<in> set objectPrototypeKeys then Inl TypeError
             else Inr (speakers @ [(ToString speaker, \<lparr>name = speaker, speaches = [speach]\<rparr>)]))"

fun addRows :: "ColumnDefinitions \<Rightarrow> ISpeaker \<Rightarrow> string list list \<Rightarrow> error + ISpeaker" where
  "addRows cd speakers [] = Inr speakers"
| "addRows cd speakers (rowData # rows) =
     (case addRow cd speakers rowData of
        Inl e \<Rightarrow> Inl e
      | Inr speakers' \<Rightarrow> addRows cd speakers' rows)"

text \<open>The outer loop. The tables are mutated in place (\<open>shift()\<close> removes
  the header), so the loop returns the tables as it leaves them together with
  the speakers or the exception. Each table is an array of its own, as
  \<open>getCSVData\<close> builds them.\<close>

fun groupFiles :: "ColumnDefinitions \<Rightarrow> ISpeaker \<Rightarrow> string list list list \<Rightarrow> string list list list \<times> (error + ISpeaker)" where
  "groupFiles cd speakers [] = ([], Inr speakers)"
| "groupFiles cd speakers (csvFile # rest) =
     (case validateCsvHeader cd (firstRow csvFile) of
        Inl e \<Rightarrow> (csvFile # rest, Inl e)
      | Inr isHeaderValid \<Rightarrow>
          if \<not> isHeaderValid then
            (let (rest', r) = groupFiles cd speakers rest in (csvFile # rest', r))
          else
            (case addRows cd speakers (tl csvFile) of
               Inl e \<Rightarrow> (tl csvFile # rest, Inl e)
             | Inr speakers' \<Rightarrow>
                 (let (rest', r) = groupFiles cd speakers' rest in (tl csvFile # rest', r))))"

definition sortAndGroupData :: "ColumnDefinitions \<Rightarrow> string list list list \<Rightarrow> string list list list \<times> (error + ISpeaker)" where
  "sortAndGroupData cd csvFilesData = groupFiles cd [] csvFilesData"

section \<open>The evaluator\<close>

text \<open>\<open>evaluate\<close> returns \<open>JSON.stringify\<close> of an object with the three
  answers; the model returns that object (the serialisation is injective),
  with the tables as the grouping left them.\<close>

definition evaluate :: "ColumnDefinitions \<Rightarrow> (string option \<Rightarrow> jsnumber) \<Rightarrow> string list list list \<Rightarrow> string list list list \<times> (error + EvaluationResult)" where
  "evaluate cd getFullYear csvFilesData =
     (case sortAndGroupData cd csvFilesData of
        (csvFilesData', Inl e) \<Rightarrow> (csvFilesData', Inl e)
      | (csvFilesData', Inr sortedAndGroupedData) \<Rightarrow>
          (csvFilesData',
           Inr \<lparr>mostSpeaches = getFilteredSpeaker getFullYear sortedAndGroupedData
                                 \<lparr>option = filterByYear, value = NumberValue (Num 2013)\<rparr>,
                mostSecurity = getFilteredSpeaker getFullYear sortedAndGroupedData
                                 \<lparr>option = filterByTopic, value = StringValue ''Internal Security''\<rparr>,
                leastWordy = getLeastWordySpeaker sortedAndGroupedData\<rparr>))"

section \<open>Notions used to state the properties\<close>

text \<open>A table has a valid header when it has a first row and the validator
  accepts it; \<open>removeHeader\<close> is what \<open>shift()\<close> leaves of such a table;
  the data rows of a list of tables are the rows after the header of the
  tables with a valid header, in input order.\<close>

definition hasValidHeader :: "ColumnDefinitions \<Rightarrow> string list list \<Rightarrow> bool" where
  "hasValidHeader cd t = (validateCsvHeader cd (firstRow t) = Inr True)"

definition removeHeader :: "ColumnDefinitions \<Rightarrow> string list list \<Rightarrow> string list list" where
  "removeHeader cd t = (if hasValidHeader cd t then tl t else t)"

definition dataRows :: "ColumnDefinitions \<Rightarrow> string list list list \<Rightarrow> string list list" where
  "dataRows cd ts = concat (map (\<lambda>t. if hasValidHeader cd t then tl t else []) ts)"

text \<open>What \<open>sortAndGroupData\<close> reads from one row: the property key of
  its speaker field and its speech record; what a table holds under a key; the
  number of records in a table.\<close>

definition speakerKey :: "ColumnDefinitions \<Rightarrow> string list \<Rightarrow> string" where
  "speakerKey cd row = ToString (field row (Speaker cd))"

definition speachOf :: "ColumnDefinitions \<Rightarrow> string list \<Rightarrow> ISpeach" where
  "speachOf cd row = \<lparr>topic = field row (Topic cd), date = field row (Date cd), words = field row (Words cd)\<rparr>"

definition speachesOf :: "ISpeaker \<Rightarrow> string \<Rightarrow> ISpeach list" where
  "speachesOf speakers k = (case map_of speakers k of None \<Rightarrow> [] | Some e \<Rightarrow> speaches e)"

definition recordCount :: "ISpeaker \<Rightarrow> nat" where
  "recordCount speakers = sum_list (map (\<lambda>p. length (speaches (snd p))) speakers)"

text \<open>The lists of tables on which \<open>sortAndGroupData\<close> runs to its end
  (lemma \<open>sortAndGroupData_Inr_iff\<close>): every table has a first row, and no
  data row names, in its speaker field, a property that every object
  inherits.\<close>

definition runsToEnd :: "ColumnDefinitions \<Rightarrow> string list list list \<Rightarrow> bool" where
  "runsToEnd cd ts =
     (list_all (\<lambda>t. t \<noteq> []) ts \<and>
      list_all (\<lambda>r. speakerKey cd r \<notin> set objectPrototypeKeys) (dataRows cd ts))"

text \<open>The invariant of the tables the Grouper builds: one entry per key,
  each filed under the key its name denotes, and no key \<open>__proto__\<close>.\<close>

definition isSpeakerTable :: "ISpeaker \<Rightarrow> bool" where
  "isSpeakerTable speakers =
     (distinct (map fst speakers) \<and>
      list_all (\<lambda>p. fst p = ToString (name (snd p)) \<and> fst p \<noteq> ''__proto__'') speakers)"

text \<open>The number of records the code's filter keeps for a speaker (used in
  the proofs), and the shape of a list in enumeration order.\<close>

definition filteredCount :: "(string option \<Rightarrow> jsnumber) \<Rightarrow> IFilterOptions \<Rightarrow> SpeakerEntry \<Rightarrow> nat" where
  "filteredCount getFullYear filterOptions e = length (filteredSpeaches getFullYear filterOptions (speaches e))"

definition enumerationOrder :: "(string \<times> 'v) list \<Rightarrow> bool" where
  "enumerationOrder xs =
     (\<exists>as bs. xs = as @ bs \<and> (\<forall>p\<in>set as. arrayIndex (fst p) \<noteq> None) \<and>
        sorted (map (\<lambda>p. the (arrayIndex (fst p))) as) \<and> (\<forall>p\<in>set bs. arrayIndex (fst p) = None))"





section \<open>Example data\<close>

text \<open>The tables of the end-to-end example: table A with a valid header and
  two rows, a table B whose header lacks the \<open>Words\<close> column, a second
  valid table C that mentions Bob again, and the table the Grouper builds from
  A and B.\<close>

definition headerRow :: "string list" where
  "headerRow = [''Speaker'', ''Topic'', ''Date'', ''Words'']"

definition tableA :: "string list list" where
  "tableA = [headerRow,
             [''Alice'', ''Internal Security'', ''2013-01-01'', ''100''],
             [''Bob'', ''Budget'', ''2013-02-01'', ''50'']]"

definition tableB :: "string list list" where
  "tableB = [[''Speaker'', ''Topic'', ''Date''],
             [''Carol'', ''Budget'', ''2013-03-01'']]"

definition tableC :: "string list list" where
  "tableC = [headerRow, [''Bob'', ''Internal Security'', ''2013-05-01'', ''70'']]"

definition groupedA :: ISpeaker where
  "groupedA =
     [(''Alice'', \<lparr>name = Some ''Alice'', speaches =
         [\<lparr>topic = Some ''Internal Security'', date = Some ''2013-01-01'', words = Some ''100''\<rparr>]\<rparr>),
      (''Bob'', \<lparr>name = Some ''Bob'', speaches =
         [\<lparr>topic = Some ''Budget'', date = Some ''2013-02-01'', words = Some ''50''\<rparr>]\<rparr>)]"

text \<open>An instance of the runtime's \<open>getFullYear\<close> for the examples: the
  year an ISO date text \<open>YYYY-MM-DD\<close> begins with, which is what a runtime
  whose local time is not behind UTC reads from it.\<close>

definition isoYear :: "string option \<Rightarrow> jsnumber" where
  "isoYear d = (case d of None \<Rightarrow> NaN | Some s \<Rightarrow> parseInt (Some (take 4 s)))"

text \<open>A table in which one record of Alice has an empty \<open>words\<close> field, and
  the same table without that record.\<close>

definition speakingRecord :: "string \<Rightarrow> ISpeach" where
  "speakingRecord w = \<lparr>topic = Some ''Budget'', date = Some ''2013-01-01'', words = Some w\<rparr>"

definition malformedTable :: ISpeaker where
  "malformedTable =
     [(''Alice'', \<lparr>name = Some ''Alice'', speaches = [speakingRecord ''100'', speakingRecord '''']\<rparr>),
      (''Bob'', \<lparr>name = Some ''Bob'', speaches = [speakingRecord ''50'']\<rparr>)]"

definition repairedTable :: ISpeaker where
  "repairedTable =
     [(''Alice'', \<lparr>name = Some ''Alice'', speaches = [speakingRecord ''100'']\<rparr>),
      (''Bob'', \<lparr>name = Some ''Bob'', speaches = [speakingRecord ''50'']\<rparr>)]"

text \<open>Two more tables with a valid header and one row each, whose speakers
  bear names that every object inherits.\<close>

definition tableK :: "string list list" where
  "tableK = [headerRow, [''valueOf'', ''Budget'', ''2013-04-01'', ''30'']]"

definition tableT :: "string list list" where
  "tableT = [headerRow, [''toString'', ''Budget'', ''2013-04-01'', ''30'']]"

text \<open>\<open>new Date(text).getFullYear()\<close> on a date-only ISO text
  \<open>YYYY-MM-DD\<close>, for a runtime whose local time is UTC plus \<open>offset\<close>
  minutes (less than a day either way): the text denotes midnight UTC of that
  day, and the year is read in local time, so behind UTC the first of January
  belongs to the year before. Texts of another shape are not modelled and
  stand as \<open>NaN\<close>.\<close>

definition localYear :: "int \<Rightarrow> string option \<Rightarrow> jsnumber" where
  "localYear offset d =
     (case d of
        None \<Rightarrow> NaN
      | Some s \<Rightarrow>
          if length s = 10 \<and> list_all isDecimalDigit (take 4 s) \<and> s ! 4 = CHR ''-''
             \<and> list_all isDecimalDigit (take 2 (drop 5 s)) \<and> s ! 7 = CHR ''-''
             \<and> list_all isDecimalDigit (drop 8 s)
          then (if offset < 0 \<and> decimalValue (take 2 (drop 5 s)) = 1 \<and> decimalValue (drop 8 s) = 1
                then Num (decimalValue (take 4 s) - 1)
                else Num (decimalValue (take 4 s)))
          else NaN)"



text \<open>The result in which all three answers are absent.\<close>

definition noResult :: EvaluationResult where
  "noResult = \<lparr>mostSpeaches = None, mostSecurity = None, leastWordy = None\<rparr>"

section \<open>Auxiliary facts\<close>

subsection \<open>Grouping\<close>

lemma addRow_Inr:
  "speakerKey cd r \<notin> set objectPrototypeKeys \<or> speakerKey cd r \<in> fst ` set sp
   \<Longrightarrow> \<exists>sp'. addRow cd sp r = Inr sp'"
  by (auto simp: addRow_def speakerKey_def Let_def map_of_eq_None_iff split: option.splits)

lemma addRow_Inl:
  "addRow cd sp r = Inl e \<Longrightarrow> speakerKey cd r \<in> set objectPrototypeKeys \<and> speakerKey cd r \<notin> fst ` set sp"
  by (auto simp: addRow_def speakerKey_def Let_def map_of_eq_None_iff split: option.splits if_splits)

lemma addRow_speachesOf:
  assumes "addRow cd sp r = Inr sp'"
  shows "speachesOf sp' k = speachesOf sp k @ (if speakerKey cd r = k then [speachOf cd r] else [])"
  using assms
  by (auto simp: addRow_def speakerKey_def speachOf_def speachesOf_def Let_def update_conv'
      split: option.splits if_splits)

lemma addRow_keys:
  assumes "addRow cd sp r = Inr sp'"
  shows "map fst sp' = (if speakerKey cd r \<in> fst ` set sp then map fst sp else map fst sp @ [speakerKey cd r])"
  using assms
  by (force simp: addRow_def speakerKey_def Let_def update_keys map_of_eq_None_iff
      split: option.splits if_splits dest!: map_of_SomeD)

lemma recordCount_update:
  "map_of sp k = Some e \<Longrightarrow>
   recordCount (AList.update k (e\<lparr>speaches := speaches e @ [s]\<rparr>) sp) = Suc (recordCount sp)"
  by (induction sp) (auto simp: recordCount_def)

lemma addRow_recordCount:
  assumes "addRow cd sp r = Inr sp'"
  shows "recordCount sp' = Suc (recordCount sp)"
  using assms
  by (auto simp: addRow_def Let_def recordCount_update split: option.splits if_splits)
     (simp add: recordCount_def)

lemma set_update_subset: "set (AList.update k v al) \<subseteq> insert (k, v) (set al)"
  by (induction al) auto

lemma addRow_isSpeakerTable:
  assumes "addRow cd sp r = Inr sp'" "isSpeakerTable sp"
  shows "isSpeakerTable sp'"
proof -
  have d: "distinct (map fst sp')"
    using assms by (auto simp: addRow_keys isSpeakerTable_def)
  have "list_all (\<lambda>p. fst p = ToString (name (snd p)) \<and> fst p \<noteq> ''__proto__'') sp'"
  proof (cases "map_of sp (speakerKey cd r)")
    case None
    then show ?thesis using assms
      by (auto simp: addRow_def speakerKey_def Let_def isSpeakerTable_def objectPrototypeKeys_def
          split: if_splits)
  next
    case (Some e)
    then have sp': "sp' = AList.update (speakerKey cd r) (e\<lparr>speaches := speaches e @ [speachOf cd r]\<rparr>) sp"
      using assms by (auto simp: addRow_def speakerKey_def speachOf_def Let_def)
    have e: "(speakerKey cd r, e) \<in> set sp" using Some by (rule map_of_SomeD)
    have "\<And>p. p \<in> set sp' \<Longrightarrow> fst p = ToString (name (snd p)) \<and> fst p \<noteq> ''__proto__''"
    proof -
      fix p assume "p \<in> set sp'"
      then have "p \<in> set sp \<or> p = (speakerKey cd r, e\<lparr>speaches := speaches e @ [speachOf cd r]\<rparr>)"
        unfolding sp' using set_update_subset by fastforce
      then show "fst p = ToString (name (snd p)) \<and> fst p \<noteq> ''__proto__''"
        using assms(2) e by (auto simp: isSpeakerTable_def list_all_iff)
    qed
    then show ?thesis unfolding list_all_iff by blast
  qed
  with d show ?thesis by (simp add: isSpeakerTable_def)
qed


lemma addRows_Inr:
  "list_all (\<lambda>r. speakerKey cd r \<notin> set objectPrototypeKeys) rows \<Longrightarrow> \<exists>sp'. addRows cd sp rows = Inr sp'"
proof (induction rows arbitrary: sp)
  case Nil
  then show ?case by simp
next
  case (Cons r rows)
  then obtain sp1 where "addRow cd sp r = Inr sp1" using addRow_Inr [of cd r sp] by auto
  with Cons show ?case by simp
qed

lemma addRows_speachesOf:
  "addRows cd sp rows = Inr sp' \<Longrightarrow>
   speachesOf sp' k = speachesOf sp k @ map (speachOf cd) (filter (\<lambda>r. speakerKey cd r = k) rows)"
proof (induction rows arbitrary: sp)
  case Nil
  then show ?case by simp
next
  case (Cons r rows)
  then obtain sp1 where 1: "addRow cd sp r = Inr sp1" and 2: "addRows cd sp1 rows = Inr sp'"
    by (auto split: sum.splits)
  show ?case using Cons.IH [OF 2] addRow_speachesOf [OF 1, of k] by simp
qed

lemma addRows_recordCount:
  "addRows cd sp rows = Inr sp' \<Longrightarrow> recordCount sp' = recordCount sp + length rows"
proof (induction rows arbitrary: sp)
  case Nil
  then show ?case by simp
next
  case (Cons r rows)
  then obtain sp1 where 1: "addRow cd sp r = Inr sp1" and 2: "addRows cd sp1 rows = Inr sp'"
    by (auto split: sum.splits)
  show ?case using Cons.IH [OF 2] addRow_recordCount [OF 1] by simp
qed

lemma addRows_isSpeakerTable:
  "addRows cd sp rows = Inr sp' \<Longrightarrow> isSpeakerTable sp \<Longrightarrow> isSpeakerTable sp'"
proof (induction rows arbitrary: sp)
  case Nil
  then show ?case by simp
next
  case (Cons r rows)
  then obtain sp1 where 1: "addRow cd sp r = Inr sp1" and 2: "addRows cd sp1 rows = Inr sp'"
    by (auto split: sum.splits)
  show ?case using Cons.IH [OF 2] addRow_isSpeakerTable [OF 1 Cons.prems(2)] by simp
qed

lemma addRows_keys:
  "addRows cd sp rows = Inr sp' \<Longrightarrow> fst ` set sp' = fst ` set sp \<union> speakerKey cd ` set rows"
proof (induction rows arbitrary: sp)
  case Nil
  then show ?case by simp
next
  case (Cons r rows)
  then obtain sp1 where 1: "addRow cd sp r = Inr sp1" and 2: "addRows cd sp1 rows = Inr sp'"
    by (auto split: sum.splits)
  have "fst ` set sp1 = insert (speakerKey cd r) (fst ` set sp)"
    using addRow_keys [OF 1] by (metis (no_types, lifting) insert_absorb list.set_map set_append list.simps(15) Un_insert_right sup_bot.right_neutral empty_set)
  with Cons.IH [OF 2] show ?case by auto
qed

lemma hasValidHeader_nonempty: "hasValidHeader cd t \<Longrightarrow> t \<noteq> []"
  by (auto simp: hasValidHeader_def validateCsvHeader_def firstRow_def)

lemma validate_cases:
  "t \<noteq> [] \<Longrightarrow> validateCsvHeader cd (firstRow t) = Inr (hasValidHeader cd t)"
  by (cases t) (auto simp: hasValidHeader_def validateCsvHeader_def firstRow_def)

lemma groupFiles_Inr:
  "runsToEnd cd ts \<Longrightarrow> \<exists>ts' sp'. groupFiles cd sp ts = (ts', Inr sp')"
proof (induction ts arbitrary: sp)
  case Nil
  then show ?case by simp
next
  case (Cons t ts)
  then have ne: "t \<noteq> []" and wf: "runsToEnd cd ts"
    by (auto simp: runsToEnd_def dataRows_def)
  show ?case
  proof (cases "hasValidHeader cd t")
    case False
    obtain ts' sp' where "groupFiles cd sp ts = (ts', Inr sp')" using Cons.IH [OF wf] by blast
    then show ?thesis using False ne by (simp add: validate_cases)
  next
    case True
    then have "list_all (\<lambda>r. speakerKey cd r \<notin> set objectPrototypeKeys) (tl t)"
      using Cons.prems by (simp add: runsToEnd_def dataRows_def)
    then obtain sp1 where 1: "addRows cd sp (tl t) = Inr sp1" using addRows_Inr by blast
    obtain ts' sp' where "groupFiles cd sp1 ts = (ts', Inr sp')" using Cons.IH [OF wf] by blast
    then show ?thesis using True ne 1 by (simp add: validate_cases)
  qed
qed

lemma groupFiles_result:
  "groupFiles cd sp ts = (ts', Inr sp') \<Longrightarrow>
   ts' = map (removeHeader cd) ts \<and>
   (\<forall>k. speachesOf sp' k = speachesOf sp k @ map (speachOf cd) (filter (\<lambda>r. speakerKey cd r = k) (dataRows cd ts))) \<and>
   recordCount sp' = recordCount sp + length (dataRows cd ts) \<and>
   fst ` set sp' = fst ` set sp \<union> speakerKey cd ` set (dataRows cd ts) \<and>
   (isSpeakerTable sp \<longrightarrow> isSpeakerTable sp')"
proof (induction ts arbitrary: sp ts')
  case Nil
  then show ?case by (simp add: dataRows_def)
next
  case (Cons t ts)
  from Cons.prems have ne: "t \<noteq> []"
    by (cases t) (auto simp: validateCsvHeader_def firstRow_def)
  show ?case
  proof (cases "hasValidHeader cd t")
    case False
    then obtain ts1 where 1: "groupFiles cd sp ts = (ts1, Inr sp')" and 2: "ts' = t # ts1"
      using Cons.prems ne by (auto simp: validate_cases split: prod.splits)
    show ?thesis using Cons.IH [OF 1] 2 False by (simp add: dataRows_def removeHeader_def)
  next
    case True
    then obtain sp1 ts1 where 0: "addRows cd sp (tl t) = Inr sp1"
      and 1: "groupFiles cd sp1 ts = (ts1, Inr sp')" and 2: "ts' = tl t # ts1"
      using Cons.prems ne by (auto simp: validate_cases split: prod.splits sum.splits)
    have dr: "dataRows cd (t # ts) = tl t @ dataRows cd ts" using True by (simp add: dataRows_def)
    show ?thesis
      using Cons.IH [OF 1] 2 True addRows_speachesOf [OF 0] addRows_recordCount [OF 0]
        addRows_keys [OF 0] addRows_isSpeakerTable [OF 0]
      by (auto simp: dr removeHeader_def)
  qed
qed

subsection \<open>Enumeration order and sorting\<close>

lemma set_entries [simp]: "set (entries obj) = set obj"
  by (auto simp: entries_def)

lemma length_entries [simp]: "length (entries obj) = length obj"
proof -
  have "length (filter (\<lambda>p. arrayIndex (fst p) \<noteq> None) obj) + length (filter (\<lambda>p. \<not> arrayIndex (fst p) \<noteq> None) obj) = length obj"
    by (rule sum_length_filter_compl)
  then show ?thesis by (simp add: entries_def)
qed

lemma entries_Nil_iff [simp]: "entries obj = [] \<longleftrightarrow> obj = []"
proof -
  have "length (entries obj) = 0 \<longleftrightarrow> length obj = 0" by (simp only: length_entries)
  then show ?thesis by (simp only: length_0_conv)
qed

lemma enumerationOrder_entries: "enumerationOrder (entries obj)"
proof -
  let ?A = "sort_key (\<lambda>p. the (arrayIndex (fst p))) (filter (\<lambda>p. arrayIndex (fst p) \<noteq> None) obj)"
  let ?B = "filter (\<lambda>p. arrayIndex (fst p) = None) obj"
  have "entries obj = ?A @ ?B" by (simp add: entries_def)
  moreover have "\<forall>p\<in>set ?A. arrayIndex (fst p) \<noteq> None" by simp
  moreover have "sorted (map (\<lambda>p. the (arrayIndex (fst p))) ?A)" by (rule sorted_sort_key)
  moreover have "\<forall>p\<in>set ?B. arrayIndex (fst p) = None" by simp
  ultimately show ?thesis unfolding enumerationOrder_def by blast
qed

lemma entries_id: "enumerationOrder xs \<Longrightarrow> entries xs = xs"
proof -
  assume "enumerationOrder xs"
  then obtain as bs where xs: "xs = as @ bs" and a: "\<forall>p\<in>set as. arrayIndex (fst p) \<noteq> None"
    and s: "sorted (map (\<lambda>p. the (arrayIndex (fst p))) as)" and b: "\<forall>p\<in>set bs. arrayIndex (fst p) = None"
    unfolding enumerationOrder_def by blast
  have 1: "filter (\<lambda>p. arrayIndex (fst p) \<noteq> None) as = as" using a by (simp add: filter_id_conv)
  have 2: "filter (\<lambda>p. arrayIndex (fst p) \<noteq> None) bs = []" using b by (simp add: filter_empty_conv)
  have 3: "filter (\<lambda>p. arrayIndex (fst p) = None) as = []" using a by (simp add: filter_empty_conv)
  have 4: "filter (\<lambda>p. arrayIndex (fst p) = None) bs = bs" using b by (simp add: filter_id_conv)
  have 5: "sort_key (\<lambda>p. the (arrayIndex (fst p))) as = as" using s by (rule sort_key_id_if_sorted)
  show ?thesis unfolding entries_def xs filter_append 1 2 3 4 by (simp add: 5)
qed


lemma enumerationOrder_map: "enumerationOrder xs \<Longrightarrow> enumerationOrder (map (\<lambda>p. (fst p, g p)) xs)"
  unfolding enumerationOrder_def
proof (elim exE conjE)
  fix as bs
  let ?f = "\<lambda>p. (fst p, g p)"
  assume "xs = as @ bs" "\<forall>p\<in>set as. arrayIndex (fst p) \<noteq> None"
    "sorted (map (\<lambda>p. the (arrayIndex (fst p))) as)" "\<forall>p\<in>set bs. arrayIndex (fst p) = None"
  then have "map ?f xs = map ?f as @ map ?f bs \<and> (\<forall>p\<in>set (map ?f as). arrayIndex (fst p) \<noteq> None) \<and>
        sorted (map (\<lambda>p. the (arrayIndex (fst p))) (map ?f as)) \<and> (\<forall>p\<in>set (map ?f bs). arrayIndex (fst p) = None)"
    by (auto simp: comp_def)
  then show "\<exists>as bs. map ?f xs = as @ bs \<and> (\<forall>p\<in>set as. arrayIndex (fst p) \<noteq> None) \<and>
        sorted (map (\<lambda>p. the (arrayIndex (fst p))) as) \<and> (\<forall>p\<in>set bs. arrayIndex (fst p) = None)"
    by blast
qed

lemma update_fresh: "k \<notin> fst ` set al \<Longrightarrow> AList.update k v al = al @ [(k, v)]"
  by (induction al) auto

lemma foldl_setNumber:
  assumes "distinct (map fst acc @ map fst xs)" "\<forall>p\<in>set xs. fst p \<noteq> ''__proto__''"
  shows "foldl (\<lambda>acc p. if c p then setNumber acc (fst p) (v p) else acc) acc xs
         = acc @ map (\<lambda>p. (fst p, v p)) (filter c xs)"
  using assms
proof (induction xs arbitrary: acc)
  case Nil
  then show ?case by simp
next
  case (Cons x xs)
  show ?case
  proof (cases "c x")
    case False
    then show ?thesis using Cons.IH [of acc] Cons.prems by simp
  next
    case True
    have fresh: "fst x \<notin> fst ` set acc" using Cons.prems by auto
    have "distinct (map fst (acc @ [(fst x, v x)]) @ map fst xs)" using Cons.prems by auto
    then show ?thesis using Cons.IH [of "acc @ [(fst x, v x)]"] Cons.prems True fresh
      by (simp add: setNumber_def update_fresh)
  qed
qed

lemma distinct_entries: "distinct (map fst obj) \<Longrightarrow> distinct (map fst (entries obj))"
proof -
  assume d: "distinct (map fst obj)"
  let ?A = "filter (\<lambda>p. arrayIndex (fst p) \<noteq> None) obj"
  let ?B = "filter (\<lambda>p. arrayIndex (fst p) = None) obj"
  have "distinct (map fst ?A)" "distinct (map fst ?B)" using d by (simp_all add: distinct_map_filter)
  moreover have "distinct (map fst (sort_key (\<lambda>p. the (arrayIndex (fst p))) ?A)) = distinct (map fst ?A)"
    by (simp add: distinct_map)
  moreover have "fst ` set ?A \<inter> fst ` set ?B = {}" by auto
  ultimately show ?thesis by (simp add: entries_def)
qed

lemma filterForSpeakers_eq:
  assumes "isSpeakerTable speakers"
  shows "filterForSpeakers gfy speakers fo =
           map (\<lambda>p. (fst p, Num (int (filteredCount gfy fo (snd p)))))
               (filter (\<lambda>p. 0 < filteredCount gfy fo (snd p)) (entries speakers))"
proof -
  have key: "\<forall>p\<in>set (entries speakers). ToString (name (snd p)) = fst p \<and> fst p \<noteq> ''__proto__''"
    using assms by (auto simp: isSpeakerTable_def list_all_iff)
  have d: "distinct (map fst (entries speakers))"
    using assms by (simp add: isSpeakerTable_def distinct_entries)
  have "filterForSpeakers gfy speakers fo =
          foldl (\<lambda>acc p. if 0 < filteredCount gfy fo (snd p)
                          then setNumber acc (fst p) (Num (int (filteredCount gfy fo (snd p)))) else acc)
                [] (entries speakers)"
    unfolding filterForSpeakers_def filteredCount_def Let_def
    by (rule foldl_cong) (use key in auto)
  also have "\<dots> = [] @ map (\<lambda>p. (fst p, Num (int (filteredCount gfy fo (snd p)))))
               (filter (\<lambda>p. 0 < filteredCount gfy fo (snd p)) (entries speakers))"
    by (rule foldl_setNumber) (use key d in auto)
  finally show ?thesis by simp
qed

lemma speakersByWords_eq:
  assumes "isSpeakerTable speakers"
  shows "speakersByWords speakers = map (\<lambda>p. (fst p, totalWords (speaches (snd p)))) (entries speakers)"
proof -
  have key: "\<forall>p\<in>set (entries speakers). ToString (name (snd p)) = fst p \<and> fst p \<noteq> ''__proto__''"
    using assms by (auto simp: isSpeakerTable_def list_all_iff)
  have d: "distinct (map fst (entries speakers))"
    using assms by (simp add: isSpeakerTable_def distinct_entries)
  have "speakersByWords speakers =
          foldl (\<lambda>acc p. if True then setNumber acc (fst p) (totalWords (speaches (snd p))) else acc)
                [] (entries speakers)"
    unfolding speakersByWords_def
    by (rule foldl_cong) (use key in auto)
  also have "\<dots> = [] @ map (\<lambda>p. (fst p, totalWords (speaches (snd p)))) (filter (\<lambda>p. True) (entries speakers))"
    by (rule foldl_setNumber) (use key d in auto)
  finally show ?thesis by simp
qed


lemma jsSort_Cons: "jsSort cmp (x # xs) = insertSorted cmp x (jsSort cmp xs)"
  by (simp add: jsSort_def)

lemma insertSorted_nonempty: "insertSorted cmp x ys \<noteq> []"
  by (cases ys) auto

lemma set_insertSorted: "set (insertSorted cmp x ys) = insert x (set ys)"
  by (induction ys) auto

lemma jsSort_Nil: "jsSort cmp [] = []"
  by (simp add: jsSort_def)

lemma set_jsSort: "set (jsSort cmp xs) = set xs"
  by (induction xs) (simp_all add: jsSort_Nil jsSort_Cons set_insertSorted)

lemma jsSort_Nil_iff: "jsSort cmp xs = [] \<longleftrightarrow> xs = []"
  by (cases xs) (simp_all add: jsSort_Nil jsSort_Cons insertSorted_nonempty)



lemma firstKey_hd: "xs \<noteq> [] \<Longrightarrow> firstKey xs = Some (fst (hd xs))"
  by (cases xs) (auto simp: firstKey_def)



lemma entries_speakersByWords:
  assumes "isSpeakerTable speakers"
  shows "entries (speakersByWords speakers) = speakersByWords speakers"
  unfolding speakersByWords_eq [OF assms]
  by (intro entries_id enumerationOrder_map enumerationOrder_entries)


subsection \<open>What the grouping returns, and when\<close>

lemma sortAndGroupData_result:
  assumes "sortAndGroupData cd ts = (ts', Inr speakers)"
  shows "ts' = map (removeHeader cd) ts"
    and "speachesOf speakers k = map (speachOf cd) (filter (\<lambda>r. speakerKey cd r = k) (dataRows cd ts))"
    and "recordCount speakers = length (dataRows cd ts)"
    and "fst ` set speakers = speakerKey cd ` set (dataRows cd ts)"
    and "isSpeakerTable speakers"
proof -
  have g: "groupFiles cd [] ts = (ts', Inr speakers)" using assms by (simp add: sortAndGroupData_def)
  have e: "isSpeakerTable []" by (simp add: isSpeakerTable_def)
  note r = groupFiles_result [OF g]
  show "ts' = map (removeHeader cd) ts" using r by simp
  show "speachesOf speakers k = map (speachOf cd) (filter (\<lambda>r. speakerKey cd r = k) (dataRows cd ts))"
    using r by (simp add: speachesOf_def)
  show "recordCount speakers = length (dataRows cd ts)" using r by (simp add: recordCount_def)
  show "fst ` set speakers = speakerKey cd ` set (dataRows cd ts)" using r by simp
  show "isSpeakerTable speakers" using r e by simp
qed

lemma sortAndGroupData_Inr:
  "runsToEnd cd ts \<Longrightarrow> \<exists>speakers. sortAndGroupData cd ts = (map (removeHeader cd) ts, Inr speakers)"
proof -
  assume "runsToEnd cd ts"
  then obtain ts' sp' where g: "sortAndGroupData cd ts = (ts', Inr sp')"
    using groupFiles_Inr [of cd ts "[]"] by (auto simp: sortAndGroupData_def)
  then show ?thesis using sortAndGroupData_result(1) [OF g] by simp
qed

lemma addRow_no_inherited:
  assumes "addRow cd sp r = Inr sp'" "\<forall>k\<in>set (map fst sp). k \<notin> set objectPrototypeKeys"
  shows "speakerKey cd r \<notin> set objectPrototypeKeys \<and> (\<forall>k\<in>set (map fst sp'). k \<notin> set objectPrototypeKeys)"
proof -
  have k: "speakerKey cd r \<notin> set objectPrototypeKeys"
  proof (cases "speakerKey cd r \<in> set (map fst sp)")
    case True
    then show ?thesis using assms(2) by auto
  next
    case False
    then have "map_of sp (ToString (field r (Speaker cd))) = None"
      by (simp add: speakerKey_def map_of_eq_None_iff)
    then show ?thesis using assms(1) unfolding addRow_def Let_def speakerKey_def
      by (simp split: if_splits)
  qed
  have "set (map fst sp') \<subseteq> insert (speakerKey cd r) (set (map fst sp))"
    unfolding addRow_keys [OF assms(1)] by (simp split: if_splits) blast
  with k assms(2) show ?thesis by blast
qed

lemma addRows_no_inherited:
  "addRows cd sp rows = Inr sp' \<Longrightarrow> \<forall>k\<in>set (map fst sp). k \<notin> set objectPrototypeKeys \<Longrightarrow>
   list_all (\<lambda>r. speakerKey cd r \<notin> set objectPrototypeKeys) rows
   \<and> (\<forall>k\<in>set (map fst sp'). k \<notin> set objectPrototypeKeys)"
proof (induction rows arbitrary: sp)
  case Nil
  then show ?case by simp
next
  case (Cons r rows)
  then obtain sp1 where 1: "addRow cd sp r = Inr sp1" and 2: "addRows cd sp1 rows = Inr sp'"
    by (auto split: sum.splits)
  note a = addRow_no_inherited [OF 1 Cons.prems(2)]
  from a have 3: "\<forall>k\<in>set (map fst sp1). k \<notin> set objectPrototypeKeys" by (rule conjunct2)
  show ?case using Cons.IH [OF 2 3] a by simp
qed

lemma groupFiles_runsToEnd:
  "groupFiles cd sp ts = (ts', Inr sp') \<Longrightarrow> \<forall>k\<in>set (map fst sp). k \<notin> set objectPrototypeKeys \<Longrightarrow>
   runsToEnd cd ts"
proof (induction ts arbitrary: sp ts')
  case Nil
  then show ?case by (simp add: runsToEnd_def dataRows_def)
next
  case (Cons t ts)
  from Cons.prems(1) have ne: "t \<noteq> []"
    by (cases t) (auto simp: validateCsvHeader_def firstRow_def)
  show ?case
  proof (cases "hasValidHeader cd t")
    case False
    then obtain ts1 where 1: "groupFiles cd sp ts = (ts1, Inr sp')"
      using Cons.prems(1) ne by (auto simp: validate_cases split: prod.splits)
    show ?thesis using Cons.IH [OF 1 Cons.prems(2)] False ne by (simp add: runsToEnd_def dataRows_def)
  next
    case True
    then obtain sp1 ts1 where 0: "addRows cd sp (tl t) = Inr sp1"
      and 1: "groupFiles cd sp1 ts = (ts1, Inr sp')"
      using Cons.prems(1) ne by (auto simp: validate_cases split: prod.splits sum.splits)
    note a = addRows_no_inherited [OF 0 Cons.prems(2)]
    from a have 3: "\<forall>k\<in>set (map fst sp1). k \<notin> set objectPrototypeKeys" by (rule conjunct2)
    from a have 4: "list_all (\<lambda>r. speakerKey cd r \<notin> set objectPrototypeKeys) (tl t)" by (rule conjunct1)
    show ?thesis using Cons.IH [OF 1 3] 4 True ne by (simp add: runsToEnd_def dataRows_def)
  qed
qed

lemma sortAndGroupData_Inr_iff:
  "(\<exists>ts' speakers. sortAndGroupData cd ts = (ts', Inr speakers)) \<longleftrightarrow> runsToEnd cd ts"
proof
  assume "\<exists>ts' speakers. sortAndGroupData cd ts = (ts', Inr speakers)"
  then obtain ts' speakers where "groupFiles cd [] ts = (ts', Inr speakers)"
    by (auto simp: sortAndGroupData_def)
  then show "runsToEnd cd ts" by (rule groupFiles_runsToEnd) simp
next
  assume "runsToEnd cd ts"
  then show "\<exists>ts' speakers. sortAndGroupData cd ts = (ts', Inr speakers)"
    using sortAndGroupData_Inr by blast
qed

lemma groupFiles_all_invalid:
  "\<forall>t\<in>set ts. t \<noteq> [] \<and> \<not> hasValidHeader cd t \<Longrightarrow> groupFiles cd sp ts = (ts, Inr sp)"
  by (induction ts) (simp_all add: validate_cases)

subsection \<open>Totals and the rankings\<close>


text \<open>On a comparator that is the difference of a key, the model of the
  sort is the stable sort by that key.\<close>

lemma insertSorted_insort_key:
  assumes "\<forall>b\<in>set ys. sortCompare (cmp x b) = w x - w b"
  shows "insertSorted cmp x ys = insort_key w x ys"
  using assms by (induction ys) auto

lemma jsSort_sort_key:
  assumes "\<forall>a\<in>set xs. \<forall>b\<in>set xs. sortCompare (cmp a b) = w a - w b"
  shows "jsSort cmp xs = sort_key w xs"
  using assms
proof (induction xs)
  case Nil
  then show ?case by (simp add: jsSort_Nil)
next
  case (Cons x xs)
  then have "jsSort cmp xs = sort_key w xs" by simp
  moreover have "\<forall>b\<in>set (sort_key w xs). sortCompare (cmp x b) = w x - w b"
    using Cons.prems by simp
  ultimately show ?case by (simp add: jsSort_Cons insertSorted_insort_key)
qed

lemma jsAdd_NaN_right [simp]: "jsAdd a NaN = NaN"
  by (cases a) simp_all

lemma foldl_jsAdd_NaN: "foldl (\<lambda>a s. jsAdd a (parseInt (words s))) NaN ss = NaN"
  by (induction ss) simp_all

lemma totalWords_NaN:
  assumes "s \<in> set ss" "parseInt (words s) = NaN"
  shows "totalWords ss = NaN"
proof -
  have "foldl (\<lambda>a s. jsAdd a (parseInt (words s))) a ss = NaN" for a
    using assms
  proof (induction ss arbitrary: a)
    case Nil
    then show ?case by simp
  next
    case (Cons x xs)
    show ?case
    proof (cases "parseInt (words x) = NaN")
      case True
      then show ?thesis by (simp add: foldl_jsAdd_NaN)
    next
      case False
      then have "s \<in> set xs" using Cons.prems by auto
      then show ?thesis using Cons.IH Cons.prems(2) by simp
    qed
  qed
  then show ?thesis by (simp add: totalWords_def)
qed

lemma getLeastWordySpeaker_hd:
  assumes "isSpeakerTable speakers"
  shows "getLeastWordySpeaker speakers =
           (if speakers = [] then None
            else Some (fst (hd (jsSort (\<lambda>a b. jsSub (snd a) (snd b)) (speakersByWords speakers)))))"
proof -
  have "speakersByWords speakers = [] \<longleftrightarrow> speakers = []"
    by (simp add: speakersByWords_eq [OF assms])
  then show ?thesis
    by (simp add: getLeastWordySpeaker_def Let_def entries_speakersByWords [OF assms] firstKey_hd jsSort_Nil_iff)
qed

lemma getLeastWordySpeaker_Nil: "getLeastWordySpeaker [] = None"
  by (simp add: getLeastWordySpeaker_def speakersByWords_def entries_def)

lemma getFilteredSpeaker_Nil: "getFilteredSpeaker getFullYear [] filterOptions = None"
  by (simp add: getFilteredSpeaker_def filterForSpeakers_def entries_def)

lemma evaluate_all_invalid:
  assumes "\<forall>t\<in>set ts. t \<noteq> [] \<and> \<not> hasValidHeader cd t"
  shows "evaluate cd getFullYear ts = (ts, Inr noResult)"
  by (simp add: evaluate_def sortAndGroupData_def groupFiles_all_invalid [OF assms]
      getLeastWordySpeaker_Nil getFilteredSpeaker_Nil noResult_def)

lemma evaluate_Inr:
  assumes "evaluate cd getFullYear ts = (ts', Inr result)"
  shows "\<exists>speakers. sortAndGroupData cd ts = (ts', Inr speakers)"
  using assms by (auto simp: evaluate_def split: prod.splits sum.splits)

subsection \<open>The example data evaluated\<close>

lemmas example_defs = headerRow_def tableA_def tableB_def groupedA_def columns_def

lemma hasValidHeader_tableA: "hasValidHeader columns tableA"
  by (simp add: hasValidHeader_def validateCsvHeader_def firstRow_def field_def example_defs)

lemma invalid_tableB: "validateCsvHeader columns (firstRow tableB) = Inr False"
  by (simp add: validateCsvHeader_def firstRow_def field_def example_defs)

lemma not_hasValidHeader_tableB: "\<not> hasValidHeader columns tableB"
  by (simp add: hasValidHeader_def invalid_tableB)

lemma dataRows_example: "dataRows columns [tableA, tableB] = tl tableA"
  by (simp add: dataRows_def hasValidHeader_tableA not_hasValidHeader_tableB)

lemma runsToEnd_example: "runsToEnd columns [tableA, tableB]"
  unfolding runsToEnd_def dataRows_example
  by (simp add: speakerKey_def field_def ToString_def objectPrototypeKeys_def example_defs)

lemma hasValidHeader_tableC: "hasValidHeader columns tableC"
  by (simp add: hasValidHeader_def validateCsvHeader_def firstRow_def field_def example_defs tableC_def)

lemma addRows_tableA: "addRows columns [] (tl tableA) = Inr groupedA"
  by (simp add: addRow_def field_def ToString_def objectPrototypeKeys_def example_defs)

lemma entries_two: "entries [(''Alice'', a), (''Bob'', b)] = [(''Alice'', a), (''Bob'', b)]"
  by (simp add: entries_def arrayIndex_def isDecimalDigit_def)

lemma entries_groupedA: "entries groupedA = groupedA"
  by (simp add: entries_def groupedA_def arrayIndex_def isDecimalDigit_def)

lemma isSpeakerTable_groupedA: "isSpeakerTable groupedA"
  by (simp add: isSpeakerTable_def groupedA_def ToString_def)

lemma parseInt_100: "parseInt (Some ''100'') = Num 100"
  by (simp add: parseInt_def ToString_def isWhiteSpace_def digitValue_def)

lemma parseInt_50: "parseInt (Some ''50'') = Num 50"
  by (simp add: parseInt_def ToString_def isWhiteSpace_def digitValue_def)

lemma parseInt_empty: "parseInt (Some '''') = NaN"
  by (simp add: parseInt_def ToString_def)

lemma parseInt_2013: "parseInt (Some ''2013'') = Num 2013"
  by (simp add: parseInt_def ToString_def isWhiteSpace_def digitValue_def)

lemma speakersByWords_groupedA: "speakersByWords groupedA = [(''Alice'', Num 100), (''Bob'', Num 50)]"
  unfolding speakersByWords_eq [OF isSpeakerTable_groupedA] entries_groupedA
  by (simp add: groupedA_def totalWords_def parseInt_100 parseInt_50)

lemma leastWordy_groupedA: "getLeastWordySpeaker groupedA = Some ''Bob''"
  by (simp add: getLeastWordySpeaker_def speakersByWords_groupedA entries_two jsSort_def
      sortCompare_def firstKey_def)

lemma group_example:
  assumes "validateCsvHeader columns (firstRow B) = Inr False"
  shows "sortAndGroupData columns [tableA, B] = ([tl tableA, B], Inr groupedA)"
proof -
  have "validateCsvHeader columns (firstRow tableA) = Inr True"
    using hasValidHeader_tableA by (simp add: hasValidHeader_def)
  then show ?thesis using assms by (simp add: sortAndGroupData_def addRows_tableA)
qed

lemma byYear_groupedA:
  assumes "getFullYear (Some ''2013-01-01'') = Num 2013"
    and "getFullYear (Some ''2013-02-01'') = Num 2013"
  shows "filterForSpeakers getFullYear groupedA \<lparr>option = filterByYear, value = NumberValue (Num 2013)\<rparr>
           = [(''Alice'', Num 1), (''Bob'', Num 1)]"
  unfolding filterForSpeakers_eq [OF isSpeakerTable_groupedA] entries_groupedA
  using assms by (simp add: groupedA_def filteredCount_def filteredSpeaches_def strictEqNumber_def)

lemma byTopic_groupedA:
  "filterForSpeakers getFullYear groupedA \<lparr>option = filterByTopic, value = StringValue ''Internal Security''\<rparr>
     = [(''Alice'', Num 1)]"
  unfolding filterForSpeakers_eq [OF isSpeakerTable_groupedA] entries_groupedA
  by (simp add: groupedA_def filteredCount_def filteredSpeaches_def strictEqString_def)

lemma entries_one: "entries [(''Alice'', a)] = [(''Alice'', a)]"
  by (simp add: entries_def arrayIndex_def isDecimalDigit_def)

lemma mostSpeaches_groupedA:
  assumes "getFullYear (Some ''2013-01-01'') = Num 2013"
    and "getFullYear (Some ''2013-02-01'') = Num 2013"
  shows "getFilteredSpeaker getFullYear groupedA \<lparr>option = filterByYear, value = NumberValue (Num 2013)\<rparr>
           = Some ''Alice''"
  by (simp add: getFilteredSpeaker_def byYear_groupedA [OF assms] entries_two jsSort_def
      sortCompare_def firstKey_def)

lemma mostSecurity_groupedA:
  "getFilteredSpeaker getFullYear groupedA \<lparr>option = filterByTopic, value = StringValue ''Internal Security''\<rparr>
     = Some ''Alice''"
  by (simp add: getFilteredSpeaker_def byTopic_groupedA entries_one jsSort_def sortCompare_def
      firstKey_def)

lemma tables_evaluated:
  assumes "getFullYear (Some ''2013-01-01'') = Num 2013"
    and "getFullYear (Some ''2013-02-01'') = Num 2013"
    and "validateCsvHeader columns (firstRow B) = Inr False"
  shows "evaluate columns getFullYear [tableA, B] =
           ([tl tableA, B],
            Inr \<lparr>mostSpeaches = Some ''Alice'', mostSecurity = Some ''Alice'', leastWordy = Some ''Bob''\<rparr>)"
  by (simp add: evaluate_def group_example [OF assms(3)] mostSpeaches_groupedA [OF assms(1,2)]
      mostSecurity_groupedA leastWordy_groupedA)

lemma isoYear_jan: "isoYear (Some ''2013-01-01'') = Num 2013"
  by (simp add: isoYear_def parseInt_2013)

lemma isoYear_feb: "isoYear (Some ''2013-02-01'') = Num 2013"
  by (simp add: isoYear_def parseInt_2013)

lemma evaluate_tables:
  "evaluate columns isoYear [tableA, tableB] =
     ([tl tableA, tableB],
      Inr \<lparr>mostSpeaches = Some ''Alice'', mostSecurity = Some ''Alice'', leastWordy = Some ''Bob''\<rparr>)"
  by (rule tables_evaluated [OF isoYear_jan isoYear_feb invalid_tableB])

lemma tableB_nonempty: "tableB \<noteq> []"
  by (simp add: tableB_def)

lemma tl_tableA: "tl tableA \<noteq> [] \<and> \<not> hasValidHeader columns (tl tableA)"
  by (simp add: hasValidHeader_def validateCsvHeader_def firstRow_def field_def example_defs)

lemma isSpeakerTable_malformedTable: "isSpeakerTable malformedTable"
  by (simp add: isSpeakerTable_def malformedTable_def ToString_def)

lemma isSpeakerTable_repairedTable: "isSpeakerTable repairedTable"
  by (simp add: isSpeakerTable_def repairedTable_def ToString_def)

lemma entries_malformedTable: "entries malformedTable = malformedTable"
  by (simp add: malformedTable_def entries_two)

lemma entries_repairedTable: "entries repairedTable = repairedTable"
  by (simp add: repairedTable_def entries_two)


subsection \<open>The code's filter and the specification's matching\<close>



subsection \<open>More example data evaluated\<close>

lemma hasValidHeader_tableK: "hasValidHeader columns tableK"
  by (simp add: hasValidHeader_def validateCsvHeader_def firstRow_def field_def example_defs tableK_def)

lemma hasValidHeader_tableT: "hasValidHeader columns tableT"
  by (simp add: hasValidHeader_def validateCsvHeader_def firstRow_def field_def example_defs tableT_def)

lemma localYear_west_jan: "localYear (- 480) (Some ''2013-01-01'') = Num 2012"
  by (simp add: localYear_def isDecimalDigit_def decimalValue_def)

lemma localYear_west_feb: "localYear (- 480) (Some ''2013-02-01'') = Num 2013"
  by (simp add: localYear_def isDecimalDigit_def decimalValue_def)

lemma localYear_east_jan: "localYear 60 (Some ''2013-01-01'') = Num 2013"
  by (simp add: localYear_def isDecimalDigit_def decimalValue_def)

lemma localYear_east_feb: "localYear 60 (Some ''2013-02-01'') = Num 2013"
  by (simp add: localYear_def isDecimalDigit_def decimalValue_def)

lemma byYear_west_groupedA:
  "filterForSpeakers (localYear (- 480)) groupedA \<lparr>option = filterByYear, value = NumberValue (Num 2013)\<rparr>
     = [(''Bob'', Num 1)]"
  unfolding filterForSpeakers_eq [OF isSpeakerTable_groupedA] entries_groupedA
  by (simp add: groupedA_def filteredCount_def filteredSpeaches_def strictEqNumber_def
      localYear_west_jan localYear_west_feb)

lemma entries_Bob: "entries [(''Bob'', a)] = [(''Bob'', a)]"
  by (simp add: entries_def arrayIndex_def isDecimalDigit_def)

lemma mostSpeaches_west_groupedA:
  "getFilteredSpeaker (localYear (- 480)) groupedA \<lparr>option = filterByYear, value = NumberValue (Num 2013)\<rparr>
     = Some ''Bob''"
  by (simp add: getFilteredSpeaker_def byYear_west_groupedA entries_Bob jsSort_def firstKey_def)







section \<open>Properties\<close>

subsection \<open>Header validation\<close>

text \<open>
  C6: the Header Validator answers true for a row exactly when the row has the
  four positions and holds there, character for character, the labels
  \<open>Speaker\<close>, \<open>Topic\<close>, \<open>Date\<close>, \<open>Words\<close>; otherwise, also for a row too
  short to have a position, it answers false. It is a function of the row
  alone. With the layout of the example, a label in lower case and a row of
  three fields are both rejected.
\<close>

theorem validateCsvHeader_iff:
  "validateCsvHeader cd (Some header) =
     Inr (Speaker cd < length header \<and> header ! Speaker cd = ''Speaker'' \<and>
          Topic cd < length header \<and> header ! Topic cd = ''Topic'' \<and>
          Date cd < length header \<and> header ! Date cd = ''Date'' \<and>
          Words cd < length header \<and> header ! Words cd = ''Words'')
   \<and> validateCsvHeader columns (Some [''speaker'', ''Topic'', ''Date'', ''Words'']) = Inr False
   \<and> validateCsvHeader columns (Some [''Speaker'', ''Topic'', ''Date'']) = Inr False"
  by (auto simp: validateCsvHeader_def field_def columns_def)

subsection \<open>Grouping\<close>

text \<open>
  C3: the Grouper is not total. On a list holding one table with zero rows the
  first row is \<open>undefined\<close>, the Header Validator reads a position of it, and
  the Grouper ends with a \<open>TypeError\<close> instead of a SpeakerTable. It ends the
  same way, after removing the header, on a valid table with a row whose
  speaker is named \<open>constructor\<close>.
\<close>

theorem sortAndGroupData_no_rows:
  "sortAndGroupData cd [[]] = ([[]], Inl TypeError)
   \<and> sortAndGroupData columns [[headerRow, [''constructor'', ''Budget'', ''2013-01-01'', ''5'']]]
       = ([[[''constructor'', ''Budget'', ''2013-01-01'', ''5'']]], Inl TypeError)"
  by (simp add: sortAndGroupData_def validateCsvHeader_def firstRow_def field_def example_defs
      addRow_def ToString_def objectPrototypeKeys_def)

text \<open>
  C4: the Grouper does not reach every table with a valid header. On a list
  whose first table has no rows it ends with a \<open>TypeError\<close> at that table, so
  the rows of the valid table A after it are never grouped; and on two valid
  tables of which the first has a row whose speaker is named \<open>valueOf\<close> it
  ends with a \<open>TypeError\<close> at that row, after removing the first header, so
  the second table is never read.
\<close>

theorem sortAndGroupData_stops_early:
  "hasValidHeader columns tableA
   \<and> sortAndGroupData columns [[], tableA] = ([[], tableA], Inl TypeError)
   \<and> hasValidHeader columns tableK \<and> hasValidHeader columns tableC
   \<and> sortAndGroupData columns [tableK, tableC] = ([tl tableK, tableC], Inl TypeError)"
proof -
  have 1: "sortAndGroupData columns [[], tableA] = ([[], tableA], Inl TypeError)"
    by (simp add: sortAndGroupData_def validateCsvHeader_def firstRow_def)
  have "validateCsvHeader columns (firstRow tableK) = Inr True"
    using hasValidHeader_tableK by (simp add: hasValidHeader_def)
  moreover have "addRows columns [] (tl tableK) = Inl TypeError"
    by (simp add: tableK_def addRow_def field_def columns_def ToString_def objectPrototypeKeys_def)
  ultimately have 2: "sortAndGroupData columns [tableK, tableC] = ([tl tableK, tableC], Inl TypeError)"
    by (simp add: sortAndGroupData_def)
  show ?thesis
    using 1 2 hasValidHeader_tableA hasValidHeader_tableK hasValidHeader_tableC by simp
qed

text \<open>
  C7: an ordinary table, with a valid header and one data row of four text
  fields, whose speaker is named \<open>toString\<close>: the Grouper removes the header
  and ends with a \<open>TypeError\<close> at the row, so the row is placed in no
  speaker entry and there is no table whose records could be counted.
\<close>

theorem sortAndGroupData_inherited_name:
  "hasValidHeader columns tableT
   \<and> tl tableT = [[''toString'', ''Budget'', ''2013-04-01'', ''30'']]
   \<and> sortAndGroupData columns [tableT] = ([tl tableT], Inl TypeError)"
proof -
  have "validateCsvHeader columns (firstRow tableT) = Inr True"
    using hasValidHeader_tableT by (simp add: hasValidHeader_def)
  moreover have "addRows columns [] (tl tableT) = Inl TypeError"
    by (simp add: tableT_def addRow_def field_def columns_def ToString_def objectPrototypeKeys_def)
  ultimately have "sortAndGroupData columns [tableT] = ([tl tableT], Inl TypeError)"
    by (simp add: sortAndGroupData_def)
  then show ?thesis using hasValidHeader_tableT by (simp add: tableT_def)
qed

text \<open>
  C10: the Grouper changes its input. When it has run to its end, every table
  whose first row passed validation is left without that row and every other
  table is left as it was; so the list the caller holds differs from the one
  passed in as soon as one table has a valid header.
\<close>

theorem sortAndGroupData_mutates:
  assumes "sortAndGroupData cd csvFilesData = (csvFilesData', Inr speakers)"
  shows "csvFilesData' = map (\<lambda>t. if hasValidHeader cd t then tl t else t) csvFilesData
       \<and> ((\<exists>t\<in>set csvFilesData. hasValidHeader cd t) \<longrightarrow> csvFilesData' \<noteq> csvFilesData)"
proof -
  have 1: "csvFilesData' = map (removeHeader cd) csvFilesData"
    by (rule sortAndGroupData_result(1) [OF assms])
  have "csvFilesData' \<noteq> csvFilesData" if "t \<in> set csvFilesData" "hasValidHeader cd t" for t
  proof
    assume "csvFilesData' = csvFilesData"
    then have "map (removeHeader cd) csvFilesData = map id csvFilesData" using 1 by simp
    then have "removeHeader cd t = t" using that(1) by (metis map_eq_conv id_apply)
    then have "tl t = t" using that(2) by (simp add: removeHeader_def)
    moreover have "t \<noteq> []" using that(2) by (rule hasValidHeader_nonempty)
    ultimately show False by (metis length_tl length_greater_0_conv diff_less zero_less_one less_irrefl)
  qed
  then show ?thesis using 1 by (auto simp: removeHeader_def)
qed

theorem sortAndGroupData_mutates_witness:
  "sortAndGroupData columns [tableA, tableB] = ([tl tableA, tableB], Inr groupedA)
   \<and> [tl tableA, tableB] \<noteq> [tableA, tableB]"
proof -
  have g: "sortAndGroupData columns [tableA, tableB] = ([tl tableA, tableB], Inr groupedA)"
    by (rule group_example [OF invalid_tableB])
  show ?thesis
    using sortAndGroupData_mutates [OF g] g hasValidHeader_tableA by auto
qed

subsection \<open>Rankings\<close>

text \<open>
  C8: over a SpeakerTable with no speakers, Least-wordy and Filtered-most (with
  any filter) both return "no result" (\<open>null\<close>, here \<open>None\<close>); neither can
  fault.
\<close>

theorem rankings_empty_table:
  "getLeastWordySpeaker [] = None \<and> getFilteredSpeaker getFullYear [] filterOptions = None"
  by (simp add: getLeastWordySpeaker_def getFilteredSpeaker_def speakersByWords_def
      filterForSpeakers_def entries_def)



text \<open>
  C1, as the code has it: a record whose \<open>words\<close> field does not parse makes
  its speaker's total \<open>NaN\<close>, not the sum of the other records. Least-wordy
  does not fault on it: the speaker is entered with the total \<open>NaN\<close>, and the
  ranking still returns a speaker of the table.
\<close>

theorem getLeastWordySpeaker_malformed:
  assumes "isSpeakerTable speakers" and "(k, e) \<in> set speakers"
    and "s \<in> set (speaches e)" and "parseInt (words s) = NaN"
  shows "totalWords (speaches e) = NaN
       \<and> (k, NaN) \<in> set (speakersByWords speakers)
       \<and> (\<exists>w. getLeastWordySpeaker speakers = Some w \<and> w \<in> fst ` set speakers)"
proof -
  let ?S = "jsSort (\<lambda>a b. jsSub (snd a) (snd b)) (speakersByWords speakers)"
  have t: "totalWords (speaches e) = NaN" using assms(3,4) by (rule totalWords_NaN)
  have "(k, e) \<in> set (entries speakers)" using assms(2) by simp
  then have "(\<lambda>p. (fst p, totalWords (speaches (snd p)))) (k, e) \<in> set (speakersByWords speakers)"
    unfolding speakersByWords_eq [OF assms(1)] set_map by (rule imageI)
  then have m: "(k, NaN) \<in> set (speakersByWords speakers)" using t by simp
  have ne: "speakers \<noteq> []" using assms(2) by auto
  then have r: "getLeastWordySpeaker speakers = Some (fst (hd ?S))"
    by (simp add: getLeastWordySpeaker_hd [OF assms(1)])
  have "?S \<noteq> []" using m by (auto simp: jsSort_Nil_iff)
  then have "hd ?S \<in> set (speakersByWords speakers)" using hd_in_set set_jsSort by metis
  then have "fst (hd ?S) \<in> fst ` set speakers"
    unfolding speakersByWords_eq [OF assms(1)] by force
  with t m r show ?thesis by simp
qed

theorem getLeastWordySpeaker_malformed_witness:
  "isSpeakerTable malformedTable
   \<and> (''Alice'', \<lparr>name = Some ''Alice'', speaches = [speakingRecord ''100'', speakingRecord '''']\<rparr>) \<in> set malformedTable
   \<and> parseInt (words (speakingRecord '''')) = NaN
   \<and> totalWords [speakingRecord ''100'', speakingRecord ''''] = NaN
   \<and> (\<exists>w. getLeastWordySpeaker malformedTable = Some w \<and> w \<in> fst ` set malformedTable)"
proof -
  let ?e = "\<lparr>name = Some ''Alice'', speaches = [speakingRecord ''100'', speakingRecord '''']\<rparr>"
  have 1: "(''Alice'', ?e) \<in> set malformedTable" by (simp add: malformedTable_def)
  have 2: "speakingRecord '''' \<in> set (speaches ?e)" by simp
  have 3: "parseInt (words (speakingRecord '''')) = NaN" by (simp add: speakingRecord_def parseInt_empty)
  show ?thesis
    using getLeastWordySpeaker_malformed [OF isSpeakerTable_malformedTable 1 2 3] 1 3
      isSpeakerTable_malformedTable by simp
qed

text \<open>
  C1, as the claim has it, fails: Alice has the records \<open>100\<close> and the empty
  text, Bob has \<open>50\<close>. Alice's total is \<open>NaN\<close>, the comparison with Bob's
  total is \<open>NaN\<close> and read as a tie, and Alice is returned; without the
  malformed record, Bob is.
\<close>

theorem getLeastWordySpeaker_malformed_counterexample:
  "parseInt (words (speakingRecord '''')) = NaN
   \<and> speakersByWords malformedTable = [(''Alice'', NaN), (''Bob'', Num 50)]
   \<and> speakersByWords repairedTable = [(''Alice'', Num 100), (''Bob'', Num 50)]
   \<and> getLeastWordySpeaker malformedTable = Some ''Alice''
   \<and> getLeastWordySpeaker repairedTable = Some ''Bob''"
proof -
  have p: "parseInt (words (speakingRecord '''')) = NaN" by (simp add: speakingRecord_def parseInt_empty)
  have m: "speakersByWords malformedTable = [(''Alice'', NaN), (''Bob'', Num 50)]"
    unfolding speakersByWords_eq [OF isSpeakerTable_malformedTable] entries_malformedTable
    by (simp add: malformedTable_def totalWords_def speakingRecord_def parseInt_100 parseInt_50 parseInt_empty)
  have r: "speakersByWords repairedTable = [(''Alice'', Num 100), (''Bob'', Num 50)]"
    unfolding speakersByWords_eq [OF isSpeakerTable_repairedTable] entries_repairedTable
    by (simp add: repairedTable_def totalWords_def speakingRecord_def parseInt_100 parseInt_50)
  have "getLeastWordySpeaker malformedTable = Some ''Alice''"
    by (simp add: getLeastWordySpeaker_def m entries_two jsSort_def sortCompare_def firstKey_def)
  moreover have "getLeastWordySpeaker repairedTable = Some ''Bob''"
    by (simp add: getLeastWordySpeaker_def r entries_two jsSort_def sortCompare_def firstKey_def)
  ultimately show ?thesis using p m r by simp
qed

subsection \<open>The evaluator\<close>

text \<open>
  C9: the answers of the end-to-end example depend on the time zone of the
  host. The by-year test reads the local year of a date whose text denotes
  midnight UTC. Where local time is eight hours behind UTC the date
  \<open>2013-01-01\<close> is read as 2012, only Bob has a record of 2013, and the
  Evaluator answers Bob, not Alice, for the most speeches of 2013; the Grouper
  output and the other two answers are as in the example. Where local time is
  one hour ahead of UTC all three answers are those of the example.
\<close>

theorem evaluate_example_behind_UTC:
  "localYear (- 480) (Some ''2013-01-01'') = Num 2012
   \<and> localYear (- 480) (Some ''2013-02-01'') = Num 2013
   \<and> sortAndGroupData columns [tableA, tableB] = ([tl tableA, tableB], Inr groupedA)
   \<and> evaluate columns (localYear (- 480)) [tableA, tableB] =
       ([tl tableA, tableB],
        Inr \<lparr>mostSpeaches = Some ''Bob'', mostSecurity = Some ''Alice'', leastWordy = Some ''Bob''\<rparr>)
   \<and> evaluate columns (localYear 60) [tableA, tableB] =
       ([tl tableA, tableB],
        Inr \<lparr>mostSpeaches = Some ''Alice'', mostSecurity = Some ''Alice'', leastWordy = Some ''Bob''\<rparr>)"
proof -
  have g: "sortAndGroupData columns [tableA, tableB] = ([tl tableA, tableB], Inr groupedA)"
    by (rule group_example [OF invalid_tableB])
  have w: "evaluate columns (localYear (- 480)) [tableA, tableB] =
       ([tl tableA, tableB],
        Inr \<lparr>mostSpeaches = Some ''Bob'', mostSecurity = Some ''Alice'', leastWordy = Some ''Bob''\<rparr>)"
    by (simp add: evaluate_def g mostSpeaches_west_groupedA mostSecurity_groupedA leastWordy_groupedA)
  have e: "evaluate columns (localYear 60) [tableA, tableB] =
       ([tl tableA, tableB],
        Inr \<lparr>mostSpeaches = Some ''Alice'', mostSecurity = Some ''Alice'', leastWordy = Some ''Bob''\<rparr>)"
    by (rule tables_evaluated [OF localYear_east_jan localYear_east_feb invalid_tableB])
  show ?thesis using localYear_west_jan localYear_west_feb g w e by simp
qed

text \<open>
  C2, as the code has it: a second run receives the tables as the first run
  left them, each table with a valid header without that header. The two runs
  return the same result when no table has a valid header. When every table
  with a valid header has a next row that is not itself a valid header, the
  second run finds no valid table and returns "no result" three times.
\<close>

theorem evaluate_twice:
  assumes "evaluate cd getFullYear csvFilesData = (csvFilesData', Inr result)"
  shows "csvFilesData' = map (removeHeader cd) csvFilesData
       \<and> ((\<forall>t\<in>set csvFilesData. \<not> hasValidHeader cd t) \<longrightarrow>
            evaluate cd getFullYear csvFilesData' = (csvFilesData', Inr result))
       \<and> ((\<forall>t\<in>set csvFilesData. hasValidHeader cd t \<longrightarrow> tl t \<noteq> [] \<and> \<not> hasValidHeader cd (tl t)) \<longrightarrow>
            evaluate cd getFullYear csvFilesData' = (csvFilesData', Inr noResult))"
proof -
  from evaluate_Inr [OF assms] obtain speakers where
    g: "sortAndGroupData cd csvFilesData = (csvFilesData', Inr speakers)" by blast
  have 1: "csvFilesData' = map (removeHeader cd) csvFilesData"
    by (rule sortAndGroupData_result(1) [OF g])
  have wf: "runsToEnd cd csvFilesData" using g sortAndGroupData_Inr_iff by blast
  then have ne: "\<forall>t\<in>set csvFilesData. t \<noteq> []" by (simp add: runsToEnd_def list_all_iff)
  have 2: "evaluate cd getFullYear csvFilesData' = (csvFilesData', Inr result)"
    if "\<forall>t\<in>set csvFilesData. \<not> hasValidHeader cd t"
  proof -
    have "map (removeHeader cd) csvFilesData = csvFilesData"
      using that by (simp add: removeHeader_def map_idI)
    then show ?thesis using assms 1 by simp
  qed
  have 3: "evaluate cd getFullYear csvFilesData' = (csvFilesData', Inr noResult)"
    if h: "\<forall>t\<in>set csvFilesData. hasValidHeader cd t \<longrightarrow> tl t \<noteq> [] \<and> \<not> hasValidHeader cd (tl t)"
  proof -
    have "\<forall>t\<in>set csvFilesData'. t \<noteq> [] \<and> \<not> hasValidHeader cd t"
      unfolding 1 using h ne by (auto simp: removeHeader_def)
    then show ?thesis by (rule evaluate_all_invalid)
  qed
  show ?thesis using 1 2 3 by blast
qed

theorem evaluate_twice_witness:
  "evaluate columns isoYear [tableB] = ([tableB], Inr noResult)
   \<and> \<not> hasValidHeader columns tableB
   \<and> evaluate columns isoYear [tableA, tableB] =
       ([tl tableA, tableB],
        Inr \<lparr>mostSpeaches = Some ''Alice'', mostSecurity = Some ''Alice'', leastWordy = Some ''Bob''\<rparr>)
   \<and> hasValidHeader columns tableA \<and> tl tableA \<noteq> [] \<and> \<not> hasValidHeader columns (tl tableA)
   \<and> evaluate columns isoYear [tl tableA, tableB] = ([tl tableA, tableB], Inr noResult)"
proof -
  have b: "evaluate columns isoYear [tableB] = ([tableB], Inr noResult)"
    by (rule evaluate_all_invalid) (simp add: tableB_nonempty not_hasValidHeader_tableB)
  have nb: "\<forall>t\<in>set [tableB]. \<not> hasValidHeader columns t"
    by (simp add: not_hasValidHeader_tableB)
  have a: "\<forall>t\<in>set [tableA, tableB]. hasValidHeader columns t \<longrightarrow> tl t \<noteq> [] \<and> \<not> hasValidHeader columns (tl t)"
    using tl_tableA not_hasValidHeader_tableB by simp
  have "evaluate columns isoYear [tableB] = ([tableB], Inr noResult)"
    using evaluate_twice [OF b] nb by blast
  moreover have "evaluate columns isoYear [tl tableA, tableB] = ([tl tableA, tableB], Inr noResult)"
    using evaluate_twice [OF evaluate_tables] a by blast
  ultimately show ?thesis
    using evaluate_tables hasValidHeader_tableA tl_tableA not_hasValidHeader_tableB by simp
qed

text \<open>
  C2, as the claim has it, fails: on the tables of the example the first run
  names Alice, Alice and Bob, and the second run, on the tables as the first
  run left them, returns "no result" three times.
\<close>

theorem evaluate_twice_counterexample:
  "evaluate columns isoYear [tableA, tableB] =
     ([tl tableA, tableB],
      Inr \<lparr>mostSpeaches = Some ''Alice'', mostSecurity = Some ''Alice'', leastWordy = Some ''Bob''\<rparr>)
   \<and> evaluate columns isoYear [tl tableA, tableB] =
     ([tl tableA, tableB],
      Inr \<lparr>mostSpeaches = None, mostSecurity = None, leastWordy = None\<rparr>)"
proof -
  have "\<forall>t\<in>set [tl tableA, tableB]. t \<noteq> [] \<and> \<not> hasValidHeader columns t"
    using tl_tableA tableB_nonempty not_hasValidHeader_tableB by simp
  from evaluate_all_invalid [OF this, of isoYear] show ?thesis
    by (simp add: evaluate_tables noResult_def)
qed

end
